theory Spec2Isabelle
  imports Complex_Main
begin

section \<open>Numbers\<close>

text \<open>
  The TypeScript sources compute with JavaScript numbers. In this development a finite
  number is a \<^typ>\<open>real\<close> and arithmetic on finite numbers is exact: rounding,
  negative zero, and non-finite inputs are not represented. The one place where finite
  inputs produce a non-finite number is the division that yields the size ratio, so the
  quotient has a type of its own that keeps the three non-finite results apart, and the
  two comparisons applied to it are written out (every comparison with NaN is false).
\<close>

datatype quotient = Finite real | PosInfinity | NegInfinity | NaN

definition js_div :: "real \<Rightarrow> real \<Rightarrow> quotient" where
  "js_div a b =
     (if b \<noteq> 0 then Finite (a / b)
      else if a > 0 then PosInfinity
      else if a < 0 then NegInfinity
      else NaN)"

fun js_lt :: "quotient \<Rightarrow> real \<Rightarrow> bool" where
  "js_lt (Finite r) c = (r < c)"
| "js_lt NegInfinity c = True"
| "js_lt PosInfinity c = False"
| "js_lt NaN c = False"

fun js_gt :: "quotient \<Rightarrow> real \<Rightarrow> bool" where
  "js_gt (Finite r) c = (r > c)"
| "js_gt PosInfinity c = True"
| "js_gt NegInfinity c = False"
| "js_gt NaN c = False"

section \<open>Data model of the face-detection plugin\<close>

text \<open>\<^verbatim>\<open>face-detection.plugin.ts\<close>: the interfaces and the guidance type.\<close>

record FaceBounds =
  face_x :: real
  face_y :: real
  face_width :: real
  face_height :: real

datatype FaceGuidance =
    no_face
  | move_closer
  | move_back
  | move_left
  | move_right
  | move_up
  | move_down
  | hold_still
  | multiple_faces

record OvalBounds =
  centerX :: real
  centerY :: real
  radiusX :: real
  radiusY :: real

section \<open>Array.prototype.sort with a comparator\<close>

text \<open>
  \<^verbatim>\<open>overflows.sort((a, b) => b.value - a.value)\<close>. The language fixes the result of
  \<^verbatim>\<open>sort\<close> for a consistent comparator: the elements in comparator order, equal
  elements in their original order (the sort is stable). A stable insertion sort computes
  it: an element is placed before the first element it does not compare greater than.
\<close>

fun insert_sorted :: "('a \<Rightarrow> 'a \<Rightarrow> real) \<Rightarrow> 'a \<Rightarrow> 'a list \<Rightarrow> 'a list" where
  "insert_sorted cmp a [] = [a]"
| "insert_sorted cmp a (b # bs) =
     (if cmp a b \<le> 0 then a # b # bs else b # insert_sorted cmp a bs)"

fun array_sort :: "('a \<Rightarrow> 'a \<Rightarrow> real) \<Rightarrow> 'a list \<Rightarrow> 'a list" where
  "array_sort cmp [] = []"
| "array_sort cmp (a # as) = insert_sorted cmp a (array_sort cmp as)"

section \<open>FaceDetectionWeb.calculateGuidance\<close>

text \<open>The head box: the detected face rectangle expanded by the paddings.\<close>

definition headPaddingTop :: "FaceBounds \<Rightarrow> real" where
  "headPaddingTop face = face_height face * 0.40"

definition headPaddingBottom :: "FaceBounds \<Rightarrow> real" where
  "headPaddingBottom face = face_height face * 0.08"

definition headPaddingSide :: "FaceBounds \<Rightarrow> real" where
  "headPaddingSide face = face_width face * 0.10"

definition faceLeft :: "FaceBounds \<Rightarrow> real" where
  "faceLeft face = face_x face - headPaddingSide face"

definition faceRight :: "FaceBounds \<Rightarrow> real" where
  "faceRight face = face_x face + face_width face + headPaddingSide face"

definition faceTop :: "FaceBounds \<Rightarrow> real" where
  "faceTop face = face_y face - headPaddingTop face"

definition faceBottom :: "FaceBounds \<Rightarrow> real" where
  "faceBottom face = face_y face + face_height face + headPaddingBottom face"

definition faceCenterX :: "FaceBounds \<Rightarrow> real" where
  "faceCenterX face = (faceLeft face + faceRight face) / 2"

definition faceCenterY :: "FaceBounds \<Rightarrow> real" where
  "faceCenterY face = (faceTop face + faceBottom face) / 2"

text \<open>The oval's bounding rectangle.\<close>

definition ovalLeft :: "OvalBounds \<Rightarrow> real" where
  "ovalLeft oval = centerX oval - radiusX oval"

definition ovalRight :: "OvalBounds \<Rightarrow> real" where
  "ovalRight oval = centerX oval + radiusX oval"

definition ovalTop :: "OvalBounds \<Rightarrow> real" where
  "ovalTop oval = centerY oval - radiusY oval"

definition ovalBottom :: "OvalBounds \<Rightarrow> real" where
  "ovalBottom oval = centerY oval + radiusY oval"

text \<open>Head size relative to the oval.\<close>

definition headWidth :: "FaceBounds \<Rightarrow> real" where
  "headWidth face = faceRight face - faceLeft face"

definition headHeight :: "FaceBounds \<Rightarrow> real" where
  "headHeight face = faceBottom face - faceTop face"

definition headSize :: "FaceBounds \<Rightarrow> real" where
  "headSize face = max (headWidth face) (headHeight face)"

definition ovalSize :: "OvalBounds \<Rightarrow> real" where
  "ovalSize oval = max (radiusX oval * 2) (radiusY oval * 2)"

definition sizeRatio :: "FaceBounds \<Rightarrow> OvalBounds \<Rightarrow> quotient" where
  "sizeRatio face oval = js_div (headSize face) (ovalSize oval)"

text \<open>How far outside each edge of the oval's rectangle the head box is.\<close>

definition leftOverflow :: "FaceBounds \<Rightarrow> OvalBounds \<Rightarrow> real" where
  "leftOverflow face oval = ovalLeft oval - faceLeft face"

definition rightOverflow :: "FaceBounds \<Rightarrow> OvalBounds \<Rightarrow> real" where
  "rightOverflow face oval = faceRight face - ovalRight oval"

definition topOverflow :: "FaceBounds \<Rightarrow> OvalBounds \<Rightarrow> real" where
  "topOverflow face oval = ovalTop oval - faceTop face"

definition bottomOverflow :: "FaceBounds \<Rightarrow> OvalBounds \<Rightarrow> real" where
  "bottomOverflow face oval = faceBottom face - ovalBottom oval"

record overflow =
  ov_value :: real
  ov_guidance :: FaceGuidance

definition overflows :: "FaceBounds \<Rightarrow> OvalBounds \<Rightarrow> overflow list" where
  "overflows face oval =
     [ \<lparr>ov_value = leftOverflow face oval, ov_guidance = move_right\<rparr>,
       \<lparr>ov_value = rightOverflow face oval, ov_guidance = move_left\<rparr>,
       \<lparr>ov_value = topOverflow face oval, ov_guidance = move_down\<rparr>,
       \<lparr>ov_value = bottomOverflow face oval, ov_guidance = move_up\<rparr> ]"

definition sortedOverflows :: "FaceBounds \<Rightarrow> OvalBounds \<Rightarrow> overflow list" where
  "sortedOverflows face oval =
     array_sort (\<lambda>a b. ov_value b - ov_value a) (overflows face oval)"

definition centerThreshold :: real where
  "centerThreshold = 0.15"

definition xOffset :: "FaceBounds \<Rightarrow> OvalBounds \<Rightarrow> real" where
  "xOffset face oval = \<bar>faceCenterX face - centerX oval\<bar>"

definition yOffset :: "FaceBounds \<Rightarrow> OvalBounds \<Rightarrow> real" where
  "yOffset face oval = \<bar>faceCenterY face - centerY oval\<bar>"

definition calculateGuidance :: "FaceBounds \<Rightarrow> OvalBounds \<Rightarrow> FaceGuidance" where
  "calculateGuidance face oval =
     (if js_lt (sizeRatio face oval) 0.8 then move_closer
      else if js_gt (sizeRatio face oval) 1.15 then move_back
      else if ov_value (sortedOverflows face oval ! 0) > 0
        then ov_guidance (sortedOverflows face oval ! 0)
      else if xOffset face oval > centerThreshold \<or> yOffset face oval > centerThreshold
        then (if yOffset face oval > xOffset face oval
              then (if faceCenterY face < centerY oval then move_down else move_up)
              else (if faceCenterX face < centerX oval then move_right else move_left))
      else hold_still)"

text \<open>The oval the camera component passes to the plugin (\<^verbatim>\<open>ovalBounds\<close>).\<close>

definition appOval :: OvalBounds where
  "appOval = \<lparr>centerX = 0.50, centerY = 0.50, radiusX = 0.32, radiusY = 0.42\<rparr>"

section \<open>The browser\<close>

text \<open>
  Both services await browser operations that can reject. A rejected promise or a thrown
  exception is a value of type \<open>error\<close>; the browser is a record of the operations the
  code calls, each returning its value or the error. Every operation settles: the image
  loads or fails, the canvas calls back with a blob or with null, the reader ends.
\<close>

datatype error =
    CanvasContextError  \<comment> \<open>\<^verbatim>\<open>Could not get canvas context\<close>\<close>
  | CreateBlobError     \<comment> \<open>\<^verbatim>\<open>Failed to create blob\<close>\<close>
  | CompressError       \<comment> \<open>\<^verbatim>\<open>Failed to compress image\<close>\<close>
  | ImageError          \<comment> \<open>\<^verbatim>\<open>img.onerror\<close>\<close>
  | ReaderError         \<comment> \<open>\<^verbatim>\<open>reader.onerror\<close>\<close>
  | ScriptError         \<comment> \<open>\<^verbatim>\<open>Failed to load script\<close>\<close>
  | ModelError          \<comment> \<open>thrown by \<^verbatim>\<open>blazeface.load\<close> or \<^verbatim>\<open>estimateFaces\<close>\<close>
  | TypeError           \<comment> \<open>a property read on \<^verbatim>\<open>null\<close>\<close>

record HTMLImageElement =
  img_src :: string
  img_width :: nat
  img_height :: nat

record Blob =
  blob_size :: nat
  blob_data :: string

record Prediction =
  topLeft :: "real \<times> real"
  bottomRight :: "real \<times> real"
  probability :: "real list option"

text \<open>A loaded BlazeFace model is its \<^verbatim>\<open>estimateFaces\<close>; \<open>None\<close> is a null result.\<close>

type_synonym Model = "HTMLImageElement \<Rightarrow> error + Prediction list option"

record FaceDetectionWeb =
  model :: "Model option"
  isInitializing :: bool
  scriptsLoaded :: bool

record browser =
  loadImage :: "string \<Rightarrow> error + HTMLImageElement"
  getContext2d :: bool
  toBlob :: "HTMLImageElement \<Rightarrow> real \<Rightarrow> Blob option"
  blobToDataUrl :: "Blob \<Rightarrow> error + string"
  globalsDefined :: bool
  loadScript :: "string \<Rightarrow> error + unit"
  blazefaceLoad :: "error + Model option"
  waitForModel :: "FaceDetectionWeb \<Rightarrow> FaceDetectionWeb"

section \<open>ImageProcessingService.compressImage\<close>

record ProcessedImage =
  p_dataUrl :: string
  p_blob :: Blob
  p_size :: nat

text \<open>
  \<^verbatim>\<open>canvasToBlob\<close>: the canvas holds the drawn image, so the encoder is a function of
  the image and the quality; a null blob rejects.
\<close>

definition canvasToBlob :: "browser \<Rightarrow> HTMLImageElement \<Rightarrow> real \<Rightarrow> error + Blob" where
  "canvasToBlob env canvas q =
     (case toBlob env canvas q of Some blob \<Rightarrow> Inr blob | None \<Rightarrow> Inl CreateBlobError)"

text \<open>The variables of the binary search.\<close>

record search =
  minQuality :: real
  maxQuality :: real
  quality :: real
  bestBlob :: "Blob option"

definition initialSearch :: search where
  "initialSearch = \<lparr>minQuality = 0.10, maxQuality = 0.95, quality = 0.70, bestBlob = None\<rparr>"

definition tolerance :: real where
  "tolerance = 1024"

definition distance :: "real \<Rightarrow> Blob \<Rightarrow> real" where
  "distance targetBytes blob = \<bar>real (blob_size blob) - targetBytes\<bar>"

definition closeEnough :: "real \<Rightarrow> Blob \<Rightarrow> bool" where
  "closeEnough targetBytes blob = (distance targetBytes blob < tolerance)"

text \<open>Always keep the best result so far.\<close>

definition keepBest :: "real \<Rightarrow> Blob \<Rightarrow> search \<Rightarrow> search" where
  "keepBest targetBytes blob s =
     (case bestBlob s of
        None \<Rightarrow> s\<lparr>bestBlob := Some blob\<rparr>
      | Some best \<Rightarrow>
          if distance targetBytes blob < distance targetBytes best
          then s\<lparr>bestBlob := Some blob\<rparr> else s)"

text \<open>Binary search adjustment.\<close>

definition adjust :: "real \<Rightarrow> Blob \<Rightarrow> search \<Rightarrow> search" where
  "adjust targetBytes blob s =
     (if real (blob_size blob) > targetBytes
      then s\<lparr>maxQuality := quality s, quality := (minQuality s + quality s) / 2\<rparr>
      else s\<lparr>minQuality := quality s, quality := (maxQuality s + quality s) / 2\<rparr>)"

text \<open>
  The \<^verbatim>\<open>for\<close> loop from counter \<open>i\<close>. The first component of the result lists the
  quality of every encoder call made, in order; the second is the rejection of the
  encoder or the variables when the loop is left.
\<close>

function compressLoop ::
  "(real \<Rightarrow> error + Blob) \<Rightarrow> real \<Rightarrow> nat \<Rightarrow> search \<Rightarrow> real list \<times> (error + search)" where
  "compressLoop encode targetBytes i s =
     (if i < 8 then
        (case encode (quality s) of
           Inl e \<Rightarrow> ([quality s], Inl e)
         | Inr blob \<Rightarrow>
             if closeEnough targetBytes blob
             then ([quality s], Inr (s\<lparr>bestBlob := Some blob\<rparr>))
             else (case compressLoop encode targetBytes (i + 1)
                          (adjust targetBytes blob (keepBest targetBytes blob s)) of
                     (qs, r) \<Rightarrow> (quality s # qs, r)))
      else ([], Inr s))"
  by pat_completeness auto
termination
  by (relation "measure (\<lambda>(encode, targetBytes, i, s). 8 - i)") auto

text \<open>After the loop: the explicit failure, or the result read from the best blob.\<close>

definition compressResult :: "browser \<Rightarrow> search \<Rightarrow> error + ProcessedImage" where
  "compressResult env s =
     (case bestBlob s of
        None \<Rightarrow> Inl CompressError
      | Some best \<Rightarrow>
          (case blobToDataUrl env best of
             Inl e \<Rightarrow> Inl e
           | Inr url \<Rightarrow> Inr \<lparr>p_dataUrl = url, p_blob = best, p_size = blob_size best\<rparr>))"

definition targetBytesOf :: "real option \<Rightarrow> real" where
  "targetBytesOf targetSizeKB = (case targetSizeKB of None \<Rightarrow> 10 | Some kb \<Rightarrow> kb) * 1024"

definition compressImage ::
  "browser \<Rightarrow> string \<Rightarrow> real option \<Rightarrow> real list \<times> (error + ProcessedImage)" where
  "compressImage env dataUrl targetSizeKB =
     (case loadImage env dataUrl of
        Inl e \<Rightarrow> ([], Inl e)
      | Inr img \<Rightarrow>
          if \<not> getContext2d env then ([], Inl CanvasContextError)
          else (case compressLoop (canvasToBlob env img) (targetBytesOf targetSizeKB) 0
                       initialSearch of
                  (qs, Inl e) \<Rightarrow> (qs, Inl e)
                | (qs, Inr s) \<Rightarrow> (qs, compressResult env s)))"

section \<open>FaceDetectionWeb.initialize and detectFace\<close>

record FaceDetectionResult =
  faceDetected :: bool
  bounds :: "FaceBounds option"
  guidance :: FaceGuidance
  confidence :: "real option"

text \<open>The options of \<^verbatim>\<open>detectFace\<close> as the plugin interface declares them.\<close>

record detectOptions =
  imageData :: string
  ovalBounds :: OvalBounds
  sensitivity :: "real option"

definition tfUrl :: string where
  "tfUrl = ''https://cdn.jsdelivr.net/npm/@tensorflow/tfjs@4.17.0/dist/tf.min.js''"

definition blazefaceUrl :: string where
  "blazefaceUrl =
     ''https://cdn.jsdelivr.net/npm/@tensorflow-models/blazeface@0.0.7/dist/blazeface.js''"

definition loadScripts :: "browser \<Rightarrow> FaceDetectionWeb \<Rightarrow> (error + unit) \<times> FaceDetectionWeb" where
  "loadScripts env this =
     (if scriptsLoaded this then (Inr (), this)
      else if globalsDefined env then (Inr (), this\<lparr>scriptsLoaded := True\<rparr>)
      else (case loadScript env tfUrl of
              Inl e \<Rightarrow> (Inl e, this)
            | Inr u \<Rightarrow>
                (case loadScript env blazefaceUrl of
                   Inl e \<Rightarrow> (Inl e, this)
                 | Inr u \<Rightarrow> (Inr (), this\<lparr>scriptsLoaded := True\<rparr>))))"

text \<open>
  \<^verbatim>\<open>initialize\<close> returns \<^verbatim>\<open>success\<close> and the plugin's new fields. While another
  initialization is in flight it waits at most 30 seconds; what the plugin holds after
  the wait is the browser's \<open>waitForModel\<close>.
\<close>

definition initialize :: "browser \<Rightarrow> FaceDetectionWeb \<Rightarrow> bool \<times> FaceDetectionWeb" where
  "initialize env this =
     (if model this \<noteq> None then (True, this)
      else if isInitializing this then
        (case waitForModel env this of waited \<Rightarrow> (model waited \<noteq> None, waited))
      else
        (case loadScripts env (this\<lparr>isInitializing := True\<rparr>) of
           (Inl e, this1) \<Rightarrow> (False, this1\<lparr>isInitializing := False\<rparr>)
         | (Inr u, this1) \<Rightarrow>
             (case blazefaceLoad env of
                Inl e \<Rightarrow> (False, this1\<lparr>isInitializing := False\<rparr>)
              | Inr m \<Rightarrow> (True, this1\<lparr>model := m, isInitializing := False\<rparr>))))"

definition noFaceResult :: FaceDetectionResult where
  "noFaceResult =
     \<lparr>faceDetected = False, bounds = None, guidance = no_face, confidence = None\<rparr>"

definition multipleFacesResult :: FaceDetectionResult where
  "multipleFacesResult =
     \<lparr>faceDetected = True, bounds = None, guidance = multiple_faces, confidence = None\<rparr>"

text \<open>
  What the promise of \<^verbatim>\<open>detectFace\<close> resolves with. An image of width or height zero
  makes the normalized bounds non-finite numbers, which this development does not
  represent: that outcome is \<open>NonFinite\<close>.
\<close>

datatype resolution = Resolved FaceDetectionResult | NonFinite

definition normalizedBounds :: "Prediction \<Rightarrow> HTMLImageElement \<Rightarrow> FaceBounds" where
  "normalizedBounds prediction img =
     \<lparr>face_x = fst (topLeft prediction) / real (img_width img),
      face_y = snd (topLeft prediction) / real (img_height img),
      face_width = (fst (bottomRight prediction) - fst (topLeft prediction)) / real (img_width img),
      face_height =
        (snd (bottomRight prediction) - snd (topLeft prediction)) / real (img_height img)\<rparr>"

definition predictionConfidence :: "Prediction \<Rightarrow> real" where
  "predictionConfidence prediction =
     (case probability prediction of
        None \<Rightarrow> 0.9
      | Some [] \<Rightarrow> 0.9
      | Some (p # ps) \<Rightarrow> p)"

text \<open>The body of the \<^verbatim>\<open>try\<close> block of \<^verbatim>\<open>detectFace\<close>.\<close>

definition detectBody :: "browser \<Rightarrow> FaceDetectionWeb \<Rightarrow> detectOptions \<Rightarrow> error + resolution" where
  "detectBody env this options =
     (case loadImage env (imageData options) of
        Inl e \<Rightarrow> Inl e
      | Inr img \<Rightarrow>
          (case model this of
             None \<Rightarrow> Inl TypeError
           | Some estimateFaces \<Rightarrow>
               (case estimateFaces img of
                  Inl e \<Rightarrow> Inl e
                | Inr None \<Rightarrow> Inr (Resolved noFaceResult)
                | Inr (Some predictions) \<Rightarrow>
                    if length predictions = 0 then Inr (Resolved noFaceResult)
                    else if length predictions > 1 then Inr (Resolved multipleFacesResult)
                    else if img_width img = 0 \<or> img_height img = 0 then Inr NonFinite
                    else Inr (Resolved
                      \<lparr>faceDetected = True,
                       bounds = Some (normalizedBounds (predictions ! 0) img),
                       guidance =
                         calculateGuidance (normalizedBounds (predictions ! 0) img)
                           (ovalBounds options),
                       confidence = Some (predictionConfidence (predictions ! 0))\<rparr>))))"

text \<open>The \<^verbatim>\<open>catch\<close> block: every error of the body becomes the no-face result.\<close>

definition detectGuarded :: "browser \<Rightarrow> FaceDetectionWeb \<Rightarrow> detectOptions \<Rightarrow> resolution" where
  "detectGuarded env this options =
     (case detectBody env this options of
        Inl e \<Rightarrow> Resolved noFaceResult
      | Inr r \<Rightarrow> r)"

definition detectFace ::
  "browser \<Rightarrow> FaceDetectionWeb \<Rightarrow> detectOptions \<Rightarrow> resolution \<times> FaceDetectionWeb" where
  "detectFace env this options =
     (if model this = None then
        (case initialize env this of
           (success, this1) \<Rightarrow>
             if \<not> success then (Resolved noFaceResult, this1)
             else (detectGuarded env this1 options, this1))
      else (detectGuarded env this options, this))"

section \<open>Sample inputs\<close>

text \<open>
  Concrete browsers, encoders and models on which the theorems below are exercised. The
  stepped encoder never comes within 1 KB of a 10 KB target; the graded one does at
  qualities up to 0.5.
\<close>

definition steppedEncoder :: "real \<Rightarrow> Blob option" where
  "steppedEncoder q =
     Some \<lparr>blob_size = (if q > 0.5 then 20000 else 5000),
           blob_data = (if q > 0.45 then ''high'' else ''low'')\<rparr>"

definition gradedEncoder :: "real \<Rightarrow> Blob option" where
  "gradedEncoder q =
     Some \<lparr>blob_size = (if q > 0.5 then 20000 else 10500),
           blob_data = (if q > 0.5 then ''high'' else ''mid'')\<rparr>"

definition oneFaceModel :: Model where
  "oneFaceModel img =
     Inr (Some [\<lparr>topLeft = (64, 84.48), bottomRight = (192, 212.48),
                 probability = Some [0.99]\<rparr>])"

definition throwingModel :: Model where
  "throwingModel img = Inl ModelError"

definition sampleBrowser :: "(real \<Rightarrow> Blob option) \<Rightarrow> browser" where
  "sampleBrowser encoder =
     \<lparr>loadImage = (\<lambda>url. Inr \<lparr>img_src = url, img_width = 256, img_height = 256\<rparr>),
      getContext2d = True,
      toBlob = (\<lambda>canvas. encoder),
      blobToDataUrl = (\<lambda>blob. Inr (''data:image/jpeg;base64,'' @ blob_data blob)),
      globalsDefined = True,
      loadScript = (\<lambda>src. Inr ()),
      blazefaceLoad = Inr (Some oneFaceModel),
      waitForModel = (\<lambda>this. this)\<rparr>"

definition offlineBrowser :: browser where
  "offlineBrowser =
     \<lparr>loadImage = (\<lambda>url. Inr \<lparr>img_src = url, img_width = 256, img_height = 256\<rparr>),
      getContext2d = True,
      toBlob = (\<lambda>canvas. steppedEncoder),
      blobToDataUrl = (\<lambda>blob. Inr (''data:image/jpeg;base64,'' @ blob_data blob)),
      globalsDefined = False,
      loadScript = (\<lambda>src. Inl ScriptError),
      blazefaceLoad = Inl ModelError,
      waitForModel = (\<lambda>this. this)\<rparr>"

definition freshPlugin :: FaceDetectionWeb where
  "freshPlugin = \<lparr>model = None, isInitializing = False, scriptsLoaded = False\<rparr>"

definition sampleOptions :: "real option \<Rightarrow> detectOptions" where
  "sampleOptions sens =
     \<lparr>imageData = ''data:image/png;base64,frame'', ovalBounds = appOval, sensitivity = sens\<rparr>"

section \<open>Properties of calculateGuidance\<close>

subsection \<open>The first element of the sorted overflows\<close>

lemma insert_sorted_first:
  "insert_sorted cmp a bs ! 0 =
     (if bs = [] then a else if cmp a (bs ! 0) \<le> 0 then a else bs ! 0)"
  by (cases bs) simp_all

lemma array_sort_empty: "array_sort cmp xs = [] \<longleftrightarrow> xs = []"
proof (cases xs)
  case Nil
  then show ?thesis by simp
next
  case (Cons a as)
  then show ?thesis by (cases "array_sort cmp as") simp_all
qed

lemma array_sort_first:
  "array_sort cmp (a # as) ! 0 =
     (if as = [] then a
      else if cmp a (array_sort cmp as ! 0) \<le> 0 then a
      else array_sort cmp as ! 0)"
  by (simp add: insert_sorted_first array_sort_empty)

lemma sortedOverflows_first:
  "sortedOverflows face oval ! 0 =
     (if leftOverflow face oval \<ge> rightOverflow face oval
          \<and> leftOverflow face oval \<ge> topOverflow face oval
          \<and> leftOverflow face oval \<ge> bottomOverflow face oval
        then \<lparr>ov_value = leftOverflow face oval, ov_guidance = move_right\<rparr>
      else if rightOverflow face oval \<ge> topOverflow face oval
          \<and> rightOverflow face oval \<ge> bottomOverflow face oval
        then \<lparr>ov_value = rightOverflow face oval, ov_guidance = move_left\<rparr>
      else if topOverflow face oval \<ge> bottomOverflow face oval
        then \<lparr>ov_value = topOverflow face oval, ov_guidance = move_down\<rparr>
      else \<lparr>ov_value = bottomOverflow face oval, ov_guidance = move_up\<rparr>)"
  unfolding sortedOverflows_def overflows_def
  by (simp only: array_sort_first) auto

lemmas head_box_defs =
  headPaddingTop_def headPaddingBottom_def headPaddingSide_def
  faceLeft_def faceRight_def faceTop_def faceBottom_def faceCenterX_def faceCenterY_def
  headWidth_def headHeight_def headSize_def

lemmas oval_box_defs =
  ovalLeft_def ovalRight_def ovalTop_def ovalBottom_def ovalSize_def appOval_def

lemmas overflow_defs =
  leftOverflow_def rightOverflow_def topOverflow_def bottomOverflow_def

lemmas guidance_eval =
  calculateGuidance_def sortedOverflows_first sizeRatio_def js_div_def
  head_box_defs oval_box_defs overflow_defs xOffset_def yOffset_def centerThreshold_def


subsection \<open>Size checks\<close>



subsection \<open>Overflow checks\<close>






subsection \<open>Centred faces\<close>




section \<open>Properties of compressImage\<close>

subsection \<open>The four ways through one iteration\<close>

declare compressLoop.simps [simp del]

lemma compressLoop_done:
  "\<not> i < 8 \<Longrightarrow> compressLoop encode t i s = ([], Inr s)"
  by (simp add: compressLoop.simps)

lemma compressLoop_reject:
  "i < 8 \<Longrightarrow> encode (quality s) = Inl e \<Longrightarrow> compressLoop encode t i s = ([quality s], Inl e)"
  by (simp add: compressLoop.simps)

lemma compressLoop_hit:
  "i < 8 \<Longrightarrow> encode (quality s) = Inr blob \<Longrightarrow> closeEnough t blob \<Longrightarrow>
   compressLoop encode t i s = ([quality s], Inr (s\<lparr>bestBlob := Some blob\<rparr>))"
  by (simp add: compressLoop.simps)

lemma compressLoop_step:
  "i < 8 \<Longrightarrow> encode (quality s) = Inr blob \<Longrightarrow> \<not> closeEnough t blob \<Longrightarrow>
   compressLoop encode t i s =
     (quality s # fst (compressLoop encode t (i + 1) (adjust t blob (keepBest t blob s))),
      snd (compressLoop encode t (i + 1) (adjust t blob (keepBest t blob s))))"
  by (simp add: compressLoop.simps split: prod.splits)

text \<open>A proof about the loop considers these four cases, with the hypothesis for the rest
  of the loop in the last.\<close>

lemma compressLoop_cases [case_names finished rejected hit step]:
  assumes "\<not> i < 8 \<Longrightarrow> P"
    and "\<And>e. i < 8 \<Longrightarrow> encode (quality s) = Inl e \<Longrightarrow> P"
    and "\<And>blob. i < 8 \<Longrightarrow> encode (quality s) = Inr blob \<Longrightarrow> closeEnough t blob \<Longrightarrow> P"
    and "\<And>blob. i < 8 \<Longrightarrow> encode (quality s) = Inr blob \<Longrightarrow> \<not> closeEnough t blob \<Longrightarrow> P"
  shows P
proof (cases "i < 8")
  case False
  then show ?thesis by (rule assms(1))
next
  case True
  show ?thesis
  proof (cases "encode (quality s)")
    case (Inl e)
    with True show ?thesis by (rule assms(2))
  next
    case (Inr blob)
    with True show ?thesis
      by (cases "closeEnough t blob") (auto intro: assms(3) assms(4))
  qed
qed

subsection \<open>Number of encoder calls\<close>

lemma compressLoop_calls: "length (fst (compressLoop encode t i s)) \<le> 8 - i"
proof (induction encode t i s rule: compressLoop.induct)
  case (1 encode t i s)
  show ?case
  proof (cases rule: compressLoop_cases [where i = i and encode = encode and s = s and t = t])
    case finished
    then show ?thesis by (simp add: compressLoop_done)
  next
    case (rejected e)
    then show ?thesis by (simp add: compressLoop_reject)
  next
    case (hit blob)
    then show ?thesis by (simp add: compressLoop_hit)
  next
    case (step blob)
    from "1.IH" [OF step]
    have "length (fst (compressLoop encode t (i + 1) (adjust t blob (keepBest t blob s))))
            \<le> 8 - (i + 1)" .
    with step show ?thesis by (simp add: compressLoop_step)
  qed
qed

text \<open>Every call but the last returned an encoding that was not within tolerance.\<close>

lemma compressLoop_earlier_calls:
  "q \<in> set (butlast (fst (compressLoop encode t i s))) \<Longrightarrow>
   \<exists>blob. encode q = Inr blob \<and> \<not> closeEnough t blob"
proof (induction encode t i s rule: compressLoop.induct)
  case (1 encode t i s)
  show ?case
  proof (cases rule: compressLoop_cases [where i = i and encode = encode and s = s and t = t])
    case finished
    with "1.prems" show ?thesis by (simp add: compressLoop_done)
  next
    case (rejected e)
    with "1.prems" show ?thesis by (simp add: compressLoop_reject)
  next
    case (hit blob)
    with "1.prems" show ?thesis by (simp add: compressLoop_hit)
  next
    case (step blob)
    let ?rest = "fst (compressLoop encode t (i + 1) (adjust t blob (keepBest t blob s)))"
    from "1.prems" step have "q \<in> set (butlast (quality s # ?rest))"
      by (simp add: compressLoop_step)
    then have "q = quality s \<or> q \<in> set (butlast ?rest)"
      by (simp split: if_splits)
    then show ?thesis
    proof
      assume "q = quality s"
      with step show ?thesis by simp
    next
      assume "q \<in> set (butlast ?rest)"
      with "1.IH" [OF step] show ?thesis .
    qed
  qed
qed

lemma compressLoop_exit_at_hit:
  assumes "k < length (fst (compressLoop encode t i s))"
    and "encode (fst (compressLoop encode t i s) ! k) = Inr blob"
    and "closeEnough t blob"
  shows "Suc k = length (fst (compressLoop encode t i s))"
proof (rule ccontr)
  let ?qs = "fst (compressLoop encode t i s)"
  assume "Suc k \<noteq> length ?qs"
  with assms(1) have k: "k < length (butlast ?qs)" by simp
  then have "butlast ?qs ! k \<in> set (butlast ?qs)" by (rule nth_mem)
  with k have "?qs ! k \<in> set (butlast ?qs)" by (simp add: nth_butlast)
  then obtain b where "encode (?qs ! k) = Inr b" and "\<not> closeEnough t b"
    using compressLoop_earlier_calls by blast
  with assms(2,3) show False by simp
qed

lemma compressImage_calls:
  "fst (compressImage env dataUrl kb) =
     (case loadImage env dataUrl of
        Inl e \<Rightarrow> []
      | Inr img \<Rightarrow>
          if getContext2d env
          then fst (compressLoop (canvasToBlob env img) (targetBytesOf kb) 0 initialSearch)
          else [])"
  by (simp add: compressImage_def split: sum.splits prod.splits)

text \<open>
  Claim C2. For every browser (image loader, canvas, encoder), data URL and target size,
  \<open>compressImage\<close> returns: it yields the list of encoder calls it made and its outcome.
  It makes at most 8 encoder calls, and a call whose encoding is within the 1024-byte
  tolerance of the target is the last call made.
\<close>

theorem compressImage_terminates_bounded:
  "\<exists>qs r. compressImage env dataUrl kb = (qs, r)
      \<and> length qs \<le> 8
      \<and> (\<forall>k img blob.
            k < length qs \<and> loadImage env dataUrl = Inr img
            \<and> canvasToBlob env img (qs ! k) = Inr blob
            \<and> closeEnough (targetBytesOf kb) blob
            \<longrightarrow> Suc k = length qs)"
proof -
  let ?qs = "fst (compressImage env dataUrl kb)"
  have run: "compressImage env dataUrl kb = (?qs, snd (compressImage env dataUrl kb))"
    by simp
  have bound: "length ?qs \<le> 8"
  proof (cases "loadImage env dataUrl")
    case (Inl e)
    then show ?thesis by (simp add: compressImage_calls)
  next
    case (Inr img)
    have "length (fst (compressLoop (canvasToBlob env img) (targetBytesOf kb) 0 initialSearch))
            \<le> 8 - 0"
      by (rule compressLoop_calls)
    with Inr show ?thesis by (simp add: compressImage_calls)
  qed
  have last: "Suc k = length ?qs"
    if "k < length ?qs" and "loadImage env dataUrl = Inr img"
      and "canvasToBlob env img (?qs ! k) = Inr blob"
      and "closeEnough (targetBytesOf kb) blob" for k img blob
  proof -
    from that(1,2) have ctx: "getContext2d env"
      by (auto simp add: compressImage_calls split: if_splits)
    with that(2)
    have qs: "?qs = fst (compressLoop (canvasToBlob env img) (targetBytesOf kb) 0 initialSearch)"
      by (simp add: compressImage_calls)
    from that(1,3,4) show ?thesis
      unfolding qs by (rule compressLoop_exit_at_hit)
  qed
  from run bound last show ?thesis by blast
qed

text \<open>
  With the graded encoder and the default target of 10 KB the first encoding (20000 bytes)
  is too large and the second (10500 bytes) is within tolerance: two calls.
\<close>

theorem compressImage_terminates_bounded_witness:
  "fst (compressImage (sampleBrowser gradedEncoder) ''data:image/png;base64,photo'' None)
     = [0.70, 0.40]
   \<and> canvasToBlob (sampleBrowser gradedEncoder)
        \<lparr>img_src = ''data:image/png;base64,photo'', img_width = 256, img_height = 256\<rparr> 0.40
      = Inr \<lparr>blob_size = 10500, blob_data = ''mid''\<rparr>
   \<and> closeEnough (targetBytesOf None) \<lparr>blob_size = 10500, blob_data = ''mid''\<rparr>
   \<and> Suc 1 = length [0.70, 0.40 :: real]"
proof -
  have calls:
    "fst (compressImage (sampleBrowser gradedEncoder) ''data:image/png;base64,photo'' None)
       = [0.70, 0.40]"
    by (simp add: compressImage_def compressLoop.simps sampleBrowser_def gradedEncoder_def
        canvasToBlob_def initialSearch_def targetBytesOf_def closeEnough_def distance_def
        tolerance_def keepBest_def adjust_def)
  from compressImage_terminates_bounded
         [of "sampleBrowser gradedEncoder" "''data:image/png;base64,photo''" None]
  obtain qs r where
    run: "compressImage (sampleBrowser gradedEncoder) ''data:image/png;base64,photo'' None = (qs, r)"
    and "length qs \<le> 8" by blast
  from run calls have "qs = [0.70, 0.40]" by simp
  then show ?thesis
    using calls
    by (simp add: sampleBrowser_def gradedEncoder_def canvasToBlob_def targetBytesOf_def
        closeEnough_def distance_def tolerance_def)
qed

subsection \<open>The quality stays between the bounds\<close>

lemma keepBest_bounds [simp]:
  "minQuality (keepBest t blob s) = minQuality s"
  "maxQuality (keepBest t blob s) = maxQuality s"
  "quality (keepBest t blob s) = quality s"
  by (simp_all add: keepBest_def split: option.splits)

lemma adjust_bounds:
  assumes "minQuality s \<le> quality s" and "quality s \<le> maxQuality s"
  shows "minQuality s \<le> minQuality (adjust t blob s)"
    and "minQuality (adjust t blob s) \<le> quality (adjust t blob s)"
    and "quality (adjust t blob s) \<le> maxQuality (adjust t blob s)"
    and "maxQuality (adjust t blob s) \<le> maxQuality s"
  using assms by (simp_all add: adjust_def)

lemma compressLoop_quality_range:
  "minQuality s \<le> quality s \<Longrightarrow> quality s \<le> maxQuality s \<Longrightarrow>
   q \<in> set (fst (compressLoop encode t i s)) \<Longrightarrow>
   minQuality s \<le> q \<and> q \<le> maxQuality s"
proof (induction encode t i s rule: compressLoop.induct)
  case (1 encode t i s)
  note inv = "1.prems"(1,2) and q = "1.prems"(3)
  show ?case
  proof (cases rule: compressLoop_cases [where i = i and encode = encode and s = s and t = t])
    case finished
    with q show ?thesis by (simp add: compressLoop_done)
  next
    case (rejected e)
    with q inv show ?thesis by (simp add: compressLoop_reject)
  next
    case (hit blob)
    with q inv show ?thesis by (simp add: compressLoop_hit)
  next
    case (step blob)
    let ?s' = "adjust t blob (keepBest t blob s)"
    from inv have inv': "minQuality (keepBest t blob s) \<le> quality (keepBest t blob s)"
        "quality (keepBest t blob s) \<le> maxQuality (keepBest t blob s)"
      by simp_all
    note narrowed = adjust_bounds [OF inv', of t blob]
    from q step have "q = quality s \<or> q \<in> set (fst (compressLoop encode t (i + 1) ?s'))"
      by (simp add: compressLoop_step)
    then show ?thesis
    proof
      assume "q = quality s"
      with inv show ?thesis by simp
    next
      assume "q \<in> set (fst (compressLoop encode t (i + 1) ?s'))"
      with "1.IH" [OF step narrowed(2,3)]
      have "minQuality ?s' \<le> q \<and> q \<le> maxQuality ?s'" .
      with narrowed(1,4) show ?thesis by simp
    qed
  qed
qed

text \<open>
  Claim C9. The search starts with \<open>minQuality \<le> quality \<le> maxQuality\<close>; an iteration
  that goes on to the next (keeping the best blob, then adjusting the bounds) preserves
  it; and every quality that \<open>compressImage\<close> passes to the encoder lies in [0.10, 0.95].
\<close>

theorem quality_within_bounds:
  "(minQuality initialSearch \<le> quality initialSearch
      \<and> quality initialSearch \<le> maxQuality initialSearch)
   \<and> (minQuality s \<le> quality s \<and> quality s \<le> maxQuality s \<longrightarrow>
        minQuality (adjust t blob (keepBest t blob s))
          \<le> quality (adjust t blob (keepBest t blob s))
        \<and> quality (adjust t blob (keepBest t blob s))
          \<le> maxQuality (adjust t blob (keepBest t blob s)))
   \<and> (\<forall>q \<in> set (fst (compressImage env dataUrl kb)). 0.10 \<le> q \<and> q \<le> 0.95)"
proof (intro conjI impI ballI)
  show "minQuality initialSearch \<le> quality initialSearch"
    and "quality initialSearch \<le> maxQuality initialSearch"
    by (simp_all add: initialSearch_def)
next
  assume "minQuality s \<le> quality s \<and> quality s \<le> maxQuality s"
  then have inv: "minQuality (keepBest t blob s) \<le> quality (keepBest t blob s)"
      "quality (keepBest t blob s) \<le> maxQuality (keepBest t blob s)"
    by simp_all
  from adjust_bounds(2) [OF inv]
  show "minQuality (adjust t blob (keepBest t blob s))
          \<le> quality (adjust t blob (keepBest t blob s))" .
  from adjust_bounds(3) [OF inv]
  show "quality (adjust t blob (keepBest t blob s))
          \<le> maxQuality (adjust t blob (keepBest t blob s))" .
next
  fix q
  assume q: "q \<in> set (fst (compressImage env dataUrl kb))"
  then obtain img where
    "q \<in> set (fst (compressLoop (canvasToBlob env img) (targetBytesOf kb) 0 initialSearch))"
    by (auto simp add: compressImage_calls split: sum.splits if_splits)
  then have "minQuality initialSearch \<le> q \<and> q \<le> maxQuality initialSearch"
    by (rule compressLoop_quality_range [rotated 2]) (simp_all add: initialSearch_def)
  then show "0.10 \<le> q" and "q \<le> 0.95"
    by (simp_all add: initialSearch_def)
qed

text \<open>
  With the stepped encoder no encoding is within tolerance and the search runs all eight
  iterations, halving the interval around 0.5.
\<close>

theorem quality_within_bounds_witness:
  "fst (compressImage (sampleBrowser steppedEncoder) ''data:image/png;base64,photo'' (Some 10))
     = [0.70, 0.40, 0.55, 0.475, 0.5125, 0.49375, 0.503125, 0.4984375]
   \<and> list_all (\<lambda>q. 0.10 \<le> q \<and> q \<le> 0.95)
        [0.70, 0.40, 0.55, 0.475, 0.5125, 0.49375, 0.503125, 0.4984375 :: real]
   \<and> minQuality initialSearch \<le> quality initialSearch
   \<and> quality initialSearch \<le> maxQuality initialSearch
   \<and> adjust 10240 \<lparr>blob_size = 20000, blob_data = ''high''\<rparr>
        (keepBest 10240 \<lparr>blob_size = 20000, blob_data = ''high''\<rparr> initialSearch)
      = \<lparr>minQuality = 0.10, maxQuality = 0.70, quality = 0.40,
         bestBlob = Some \<lparr>blob_size = 20000, blob_data = ''high''\<rparr>\<rparr>"
proof -
  have calls:
    "fst (compressImage (sampleBrowser steppedEncoder) ''data:image/png;base64,photo'' (Some 10))
       = [0.70, 0.40, 0.55, 0.475, 0.5125, 0.49375, 0.503125, 0.4984375]"
    by (simp add: compressImage_def compressLoop.simps sampleBrowser_def steppedEncoder_def
        canvasToBlob_def initialSearch_def targetBytesOf_def closeEnough_def distance_def
        tolerance_def keepBest_def adjust_def)
  from quality_within_bounds
         [of initialSearch 10240 "\<lparr>blob_size = 20000, blob_data = ''high''\<rparr>"
             "sampleBrowser steppedEncoder" "''data:image/png;base64,photo''" "Some 10"]
  show ?thesis
    unfolding calls
    by (simp add: initialSearch_def keepBest_def adjust_def distance_def)
qed

subsection \<open>The best blob\<close>

text \<open>
  Keeping the best of a list of blobs, one after the other, gives the first blob of the
  list at minimal distance from the target, unless the blob held before is at least as
  close as all of them.
\<close>

lemma keepBest_best:
  "bestBlob (keepBest t blob s) =
     (case bestBlob s of
        None \<Rightarrow> Some blob
      | Some best \<Rightarrow> if distance t blob < distance t best then Some blob else Some best)"
  by (simp add: keepBest_def split: option.splits)

lemma keepBest_foldl_first_min:
  assumes "bestBlob s = Some a"
    and "bestBlob (foldl (\<lambda>s blob. keepBest t blob s) s bs) = Some r"
  shows "(r = a \<and> (\<forall>b \<in> set bs. distance t a \<le> distance t b))
       \<or> (\<exists>pre post. bs = pre @ r # post \<and> distance t r < distance t a
             \<and> (\<forall>b \<in> set pre. distance t r < distance t b)
             \<and> (\<forall>b \<in> set post. distance t r \<le> distance t b))"
  using assms
proof (induction bs arbitrary: s a)
  case Nil
  then show ?case by simp
next
  case (Cons b bs)
  show ?case
  proof (cases "distance t b < distance t a")
    case True
    with Cons.prems(1) have held: "bestBlob (keepBest t b s) = Some b"
      by (simp add: keepBest_best)
    from Cons.prems(2) have "bestBlob (foldl (\<lambda>s blob. keepBest t blob s) (keepBest t b s) bs) = Some r"
      by simp
    from Cons.IH [OF held this] show ?thesis
    proof
      assume "r = b \<and> (\<forall>b' \<in> set bs. distance t b \<le> distance t b')"
      with True have "b # bs = [] @ r # bs \<and> distance t r < distance t a
          \<and> (\<forall>b' \<in> set []. distance t r < distance t b')
          \<and> (\<forall>b' \<in> set bs. distance t r \<le> distance t b')"
        by simp
      then show ?thesis by blast
    next
      assume "\<exists>pre post. bs = pre @ r # post \<and> distance t r < distance t b
          \<and> (\<forall>b' \<in> set pre. distance t r < distance t b')
          \<and> (\<forall>b' \<in> set post. distance t r \<le> distance t b')"
      then obtain pre post where "bs = pre @ r # post" and "distance t r < distance t b"
        and "\<forall>b' \<in> set pre. distance t r < distance t b'"
        and "\<forall>b' \<in> set post. distance t r \<le> distance t b'"
        by blast
      with True have "b # bs = (b # pre) @ r # post \<and> distance t r < distance t a
          \<and> (\<forall>b' \<in> set (b # pre). distance t r < distance t b')
          \<and> (\<forall>b' \<in> set post. distance t r \<le> distance t b')"
        by simp
      then show ?thesis by blast
    qed
  next
    case False
    with Cons.prems(1) have held: "bestBlob (keepBest t b s) = Some a"
      by (simp add: keepBest_best)
    from Cons.prems(2) have "bestBlob (foldl (\<lambda>s blob. keepBest t blob s) (keepBest t b s) bs) = Some r"
      by simp
    from Cons.IH [OF held this] show ?thesis
    proof
      assume "r = a \<and> (\<forall>b' \<in> set bs. distance t a \<le> distance t b')"
      with False show ?thesis by simp
    next
      assume "\<exists>pre post. bs = pre @ r # post \<and> distance t r < distance t a
          \<and> (\<forall>b' \<in> set pre. distance t r < distance t b')
          \<and> (\<forall>b' \<in> set post. distance t r \<le> distance t b')"
      then obtain pre post where "bs = pre @ r # post" and "distance t r < distance t a"
        and "\<forall>b' \<in> set pre. distance t r < distance t b'"
        and "\<forall>b' \<in> set post. distance t r \<le> distance t b'"
        by blast
      with False have "b # bs = (b # pre) @ r # post \<and> distance t r < distance t a
          \<and> (\<forall>b' \<in> set (b # pre). distance t r < distance t b')
          \<and> (\<forall>b' \<in> set post. distance t r \<le> distance t b')"
        by simp
      then show ?thesis by blast
    qed
  qed
qed

lemma keepBest_foldl_from_none:
  assumes "bestBlob s = None"
    and "bestBlob (foldl (\<lambda>s blob. keepBest t blob s) s bs) = Some r"
  shows "\<exists>pre post. bs = pre @ r # post
             \<and> (\<forall>b \<in> set pre. distance t r < distance t b)
             \<and> (\<forall>b \<in> set post. distance t r \<le> distance t b)"
proof (cases bs)
  case Nil
  with assms show ?thesis by simp
next
  case (Cons b bs')
  from assms(1) have held: "bestBlob (keepBest t b s) = Some b"
    by (simp add: keepBest_best)
  from assms(2) Cons
  have "bestBlob (foldl (\<lambda>s blob. keepBest t blob s) (keepBest t b s) bs') = Some r"
    by simp
  from keepBest_foldl_first_min [OF held this] show ?thesis
  proof
    assume "r = b \<and> (\<forall>b' \<in> set bs'. distance t b \<le> distance t b')"
    with Cons have "bs = [] @ r # bs' \<and> (\<forall>b' \<in> set []. distance t r < distance t b')
        \<and> (\<forall>b' \<in> set bs'. distance t r \<le> distance t b')"
      by simp
    then show ?thesis by blast
  next
    assume "\<exists>pre post. bs' = pre @ r # post \<and> distance t r < distance t b
        \<and> (\<forall>b' \<in> set pre. distance t r < distance t b')
        \<and> (\<forall>b' \<in> set post. distance t r \<le> distance t b')"
    then obtain pre post where "bs' = pre @ r # post" and "distance t r < distance t b"
      and "\<forall>b' \<in> set pre. distance t r < distance t b'"
      and "\<forall>b' \<in> set post. distance t r \<le> distance t b'"
      by blast
    with Cons have "bs = (b # pre) @ r # post
        \<and> (\<forall>b' \<in> set (b # pre). distance t r < distance t b')
        \<and> (\<forall>b' \<in> set post. distance t r \<le> distance t b')"
      by simp
    then show ?thesis by blast
  qed
qed

text \<open>
  A loop that is left normally has encoded at every call; the blob it holds is the one
  that keeping the best of all these encodings gives, and no encoding but the last is
  within tolerance.
\<close>

lemma compressLoop_best:
  assumes "compressLoop encode t i s = (qs, Inr s')"
    and "\<And>a. bestBlob s = Some a \<Longrightarrow> \<not> closeEnough t a"
  shows "\<exists>bs. map encode qs = map Inr bs
           \<and> bestBlob s' = bestBlob (foldl (\<lambda>s blob. keepBest t blob s) s bs)
           \<and> (\<forall>b \<in> set (butlast bs). \<not> closeEnough t b)"
  using assms
proof (induction encode t i s arbitrary: qs rule: compressLoop.induct)
  case (1 encode t i s)
  note run = "1.prems"(1) and far = "1.prems"(2)
  show ?case
  proof (cases rule: compressLoop_cases [where i = i and encode = encode and s = s and t = t])
    case finished
    with run have "qs = []" and "s' = s" by (simp_all add: compressLoop_done)
    then have "map encode qs = map Inr []
        \<and> bestBlob s' = bestBlob (foldl (\<lambda>s blob. keepBest t blob s) s [])
        \<and> (\<forall>b \<in> set (butlast []). \<not> closeEnough t b)"
      by simp
    then show ?thesis by blast
  next
    case (rejected e)
    with run show ?thesis by (simp add: compressLoop_reject)
  next
    case (hit blob)
    with run have qs: "qs = [quality s]" and s': "s' = s\<lparr>bestBlob := Some blob\<rparr>"
      by (simp_all add: compressLoop_hit)
    have "bestBlob (keepBest t blob s) = Some blob"
    proof (cases "bestBlob s")
      case None
      then show ?thesis by (simp add: keepBest_best)
    next
      case (Some a)
      with far have "\<not> closeEnough t a" by simp
      with hit(3) have "distance t blob < distance t a"
        by (simp add: closeEnough_def)
      with Some show ?thesis by (simp add: keepBest_best)
    qed
    with qs s' hit(2) have "map encode qs = map Inr [blob]
        \<and> bestBlob s' = bestBlob (foldl (\<lambda>s blob. keepBest t blob s) s [blob])
        \<and> (\<forall>b \<in> set (butlast [blob]). \<not> closeEnough t b)"
      by simp
    then show ?thesis by blast
  next
    case (step blob)
    let ?s1 = "adjust t blob (keepBest t blob s)"
    from run step obtain qs' where qs: "qs = quality s # qs'"
      and rest: "compressLoop encode t (i + 1) ?s1 = (qs', Inr s')"
      by (cases "compressLoop encode t (i + 1) ?s1") (simp add: compressLoop_step)
    have best1: "bestBlob ?s1 = bestBlob (keepBest t blob s)"
      by (simp add: adjust_def)
    have far1: "\<not> closeEnough t a" if "bestBlob ?s1 = Some a" for a
      using that far step(3) unfolding best1
      by (auto simp add: keepBest_best split: option.splits if_splits)
    from "1.IH" [OF step rest far1]
    obtain bs where enc: "map encode qs' = map Inr bs"
      and held: "bestBlob s' = bestBlob (foldl (\<lambda>s blob. keepBest t blob s) ?s1 bs)"
      and early: "\<forall>b \<in> set (butlast bs). \<not> closeEnough t b"
      by blast
    have same: "bestBlob (foldl (\<lambda>s blob. keepBest t blob s) u bs)
        = bestBlob (foldl (\<lambda>s blob. keepBest t blob s) v bs)"
      if "bestBlob u = bestBlob v" for u v
      using that by (induction bs arbitrary: u v) (simp_all add: keepBest_best)
    from held have "bestBlob s' = bestBlob (foldl (\<lambda>s blob. keepBest t blob s) s (blob # bs))"
      by (simp add: same [OF best1])
    moreover from enc qs step(2) have "map encode qs = map Inr (blob # bs)"
      by simp
    moreover from early step(3) have "\<forall>b \<in> set (butlast (blob # bs)). \<not> closeEnough t b"
      by (simp split: if_splits)
    ultimately show ?thesis by blast
  qed
qed

lemma compressImage_success:
  assumes "compressImage env dataUrl kb = (qs, Inr res)"
  obtains img s' where "loadImage env dataUrl = Inr img"
    and "compressLoop (canvasToBlob env img) (targetBytesOf kb) 0 initialSearch = (qs, Inr s')"
    and "bestBlob s' = Some (p_blob res)"
proof -
  from assms obtain img where img: "loadImage env dataUrl = Inr img"
    by (cases "loadImage env dataUrl") (simp_all add: compressImage_def)
  with assms have ctx: "getContext2d env"
    by (auto simp add: compressImage_def split: if_splits)
  obtain r where loop:
    "compressLoop (canvasToBlob env img) (targetBytesOf kb) 0 initialSearch = (qs, r)"
    using assms img ctx
    by (cases "compressLoop (canvasToBlob env img) (targetBytesOf kb) 0 initialSearch")
      (auto simp add: compressImage_def split: sum.splits)
  with assms img ctx obtain s' where r: "r = Inr s'" and "compressResult env s' = Inr res"
    by (cases r) (simp_all add: compressImage_def)
  then have "bestBlob s' = Some (p_blob res)"
    by (auto simp add: compressResult_def split: option.splits sum.splits)
  with img loop r show thesis by (auto intro: that)
qed

text \<open>
  Claim C5. When \<open>compressImage\<close> returns a result, the encodings produced by its encoder
  calls are, in order, some blobs \<open>pre\<close>, the returned blob, and some blobs \<open>post\<close>:
  the returned blob is strictly closer to the target than every earlier encoding and at
  least as close as every later one. No other encoding is within tolerance, and when the
  returned blob is within tolerance it is the last encoding produced, so it is strictly
  closer than every encoding probed before it.
\<close>

theorem compressImage_returns_closest:
  assumes "compressImage env dataUrl kb = (qs, Inr res)"
    and "loadImage env dataUrl = Inr img"
  shows "\<exists>pre post.
           map (canvasToBlob env img) qs = map Inr (pre @ p_blob res # post)
         \<and> (\<forall>b \<in> set pre.
               distance (targetBytesOf kb) (p_blob res) < distance (targetBytesOf kb) b)
         \<and> (\<forall>b \<in> set post.
               distance (targetBytesOf kb) (p_blob res) \<le> distance (targetBytesOf kb) b)
         \<and> (\<forall>b \<in> set (pre @ post). \<not> closeEnough (targetBytesOf kb) b)
         \<and> (closeEnough (targetBytesOf kb) (p_blob res) \<longrightarrow> post = [])"
proof -
  let ?t = "targetBytesOf kb"
  let ?r = "p_blob res"
  from assms(1) obtain img' s' where "loadImage env dataUrl = Inr img'"
    and loop': "compressLoop (canvasToBlob env img') ?t 0 initialSearch = (qs, Inr s')"
    and best: "bestBlob s' = Some ?r"
    by (rule compressImage_success)
  with assms(2) have loop: "compressLoop (canvasToBlob env img) ?t 0 initialSearch = (qs, Inr s')"
    by simp
  have none: "bestBlob initialSearch = None"
    by (simp add: initialSearch_def)
  from compressLoop_best [OF loop] none
  obtain bs where enc: "map (canvasToBlob env img) qs = map Inr bs"
    and held: "bestBlob s' = bestBlob (foldl (\<lambda>s blob. keepBest ?t blob s) initialSearch bs)"
    and early: "\<forall>b \<in> set (butlast bs). \<not> closeEnough ?t b"
    by auto
  from held best
  have "bestBlob (foldl (\<lambda>s blob. keepBest ?t blob s) initialSearch bs) = Some ?r"
    by simp
  from keepBest_foldl_from_none [OF none this]
  obtain pre post where bs: "bs = pre @ ?r # post"
    and before: "\<forall>b \<in> set pre. distance ?t ?r < distance ?t b"
    and after: "\<forall>b \<in> set post. distance ?t ?r \<le> distance ?t b"
    by blast
  have pre_far: "\<not> closeEnough ?t b" if "b \<in> set pre" for b
    using that early bs by (simp add: butlast_append)
  have r_far: "\<not> closeEnough ?t ?r" if "post \<noteq> []"
    using that early bs by (simp add: butlast_append)
  have post_far: "\<not> closeEnough ?t b" if "b \<in> set post" for b
  proof -
    from that have "post \<noteq> []" by auto
    then have "\<not> closeEnough ?t ?r" by (rule r_far)
    moreover from after that have "distance ?t ?r \<le> distance ?t b" by simp
    ultimately show ?thesis by (simp add: closeEnough_def)
  qed
  from pre_far post_far have others: "\<forall>b \<in> set (pre @ post). \<not> closeEnough ?t b"
    by auto
  from r_far have last: "closeEnough ?t ?r \<longrightarrow> post = []"
    by blast
  from enc bs before after others last show ?thesis by blast
qed
text \<open>
  The stepped encoder: eight encodings, none within tolerance; the second (5000 bytes,
  \<open>low\<close>, 5240 bytes from the target) is returned, ahead of the later encodings of 5000
  bytes. The graded encoder: the second encoding (10500 bytes, 260 bytes from the target)
  is within tolerance, is the last one and is returned.
\<close>

theorem compressImage_returns_closest_witness:
  "compressImage (sampleBrowser steppedEncoder) ''data:image/png;base64,photo'' (Some 10)
     = ([0.70, 0.40, 0.55, 0.475, 0.5125, 0.49375, 0.503125, 0.4984375],
        Inr \<lparr>p_dataUrl = ''data:image/jpeg;base64,low'',
             p_blob = \<lparr>blob_size = 5000, blob_data = ''low''\<rparr>, p_size = 5000\<rparr>)
   \<and> (\<exists>pre post.
         map (canvasToBlob (sampleBrowser steppedEncoder)
                \<lparr>img_src = ''data:image/png;base64,photo'', img_width = 256, img_height = 256\<rparr>)
             [0.70, 0.40, 0.55, 0.475, 0.5125, 0.49375, 0.503125, 0.4984375]
           = map Inr (pre @ \<lparr>blob_size = 5000, blob_data = ''low''\<rparr> # post)
       \<and> list_all (\<lambda>b. 5240 < distance 10240 b) pre
       \<and> list_all (\<lambda>b. 5240 \<le> distance 10240 b) post
       \<and> list_all (\<lambda>b. \<not> closeEnough 10240 b) (pre @ post))
   \<and> compressImage (sampleBrowser gradedEncoder) ''data:image/png;base64,photo'' (Some 10)
     = ([0.70, 0.40],
        Inr \<lparr>p_dataUrl = ''data:image/jpeg;base64,mid'',
             p_blob = \<lparr>blob_size = 10500, blob_data = ''mid''\<rparr>, p_size = 10500\<rparr>)
   \<and> closeEnough 10240 \<lparr>blob_size = 10500, blob_data = ''mid''\<rparr>
   \<and> (\<exists>pre post.
         map (canvasToBlob (sampleBrowser gradedEncoder)
                \<lparr>img_src = ''data:image/png;base64,photo'', img_width = 256, img_height = 256\<rparr>)
             [0.70, 0.40]
           = map Inr (pre @ \<lparr>blob_size = 10500, blob_data = ''mid''\<rparr> # post)
       \<and> list_all (\<lambda>b. 260 < distance 10240 b) pre
       \<and> list_all (\<lambda>b. 260 \<le> distance 10240 b) post
       \<and> list_all (\<lambda>b. \<not> closeEnough 10240 b) (pre @ post)
       \<and> post = [])"
  (is "?stepped \<and> ?first \<and> ?graded \<and> ?near \<and> ?second")
proof -
  let ?img = "\<lparr>img_src = ''data:image/png;base64,photo'', img_width = 256, img_height = 256\<rparr>"
  have stepped: ?stepped
    by (simp add: compressImage_def compressLoop.simps sampleBrowser_def steppedEncoder_def
        canvasToBlob_def initialSearch_def targetBytesOf_def closeEnough_def distance_def
        tolerance_def keepBest_def adjust_def compressResult_def)
  have graded: ?graded
    by (simp add: compressImage_def compressLoop.simps sampleBrowser_def gradedEncoder_def
        canvasToBlob_def initialSearch_def targetBytesOf_def closeEnough_def distance_def
        tolerance_def keepBest_def adjust_def compressResult_def)
  have img: "loadImage (sampleBrowser encoder) ''data:image/png;base64,photo'' = Inr ?img"
    for encoder
    by (simp add: sampleBrowser_def)
  have target: "targetBytesOf (Some 10) = 10240"
    by (simp add: targetBytesOf_def)
  have near: ?near
    by (simp add: closeEnough_def distance_def tolerance_def)
  have d_low: "distance 10240 \<lparr>blob_size = 5000, blob_data = ''low''\<rparr> = 5240"
    and d_mid: "distance 10240 \<lparr>blob_size = 10500, blob_data = ''mid''\<rparr> = 260"
    by (simp_all add: distance_def)
  have far: "\<not> closeEnough 10240 \<lparr>blob_size = 5000, blob_data = ''low''\<rparr>"
    by (simp add: closeEnough_def distance_def tolerance_def)
  from compressImage_returns_closest [OF stepped img] have first: ?first
    by (simp add: target d_low far list_all_iff)
  from compressImage_returns_closest [OF graded img] have second: ?second
    by (simp add: target d_mid near list_all_iff)
  from stepped first graded near second show ?thesis
    by (intro conjI)
qed

subsection \<open>Failure to compress\<close>

text \<open>A loop that runs at least one iteration and is left normally holds a blob.\<close>

lemma compressLoop_holds_blob:
  "compressLoop encode t i s = (qs, Inr s') \<Longrightarrow> i < 8 \<or> bestBlob s \<noteq> None \<Longrightarrow>
   bestBlob s' \<noteq> None"
proof (induction encode t i s arbitrary: qs rule: compressLoop.induct)
  case (1 encode t i s)
  note run = "1.prems"(1) and some = "1.prems"(2)
  show ?case
  proof (cases rule: compressLoop_cases [where i = i and encode = encode and s = s and t = t])
    case finished
    with run some show ?thesis by (simp add: compressLoop_done)
  next
    case (rejected e)
    with run show ?thesis by (simp add: compressLoop_reject)
  next
    case (hit blob)
    with run show ?thesis by (auto simp add: compressLoop_hit)
  next
    case (step blob)
    let ?s1 = "adjust t blob (keepBest t blob s)"
    from run step obtain qs' where "compressLoop encode t (i + 1) ?s1 = (qs', Inr s')"
      by (cases "compressLoop encode t (i + 1) ?s1") (simp add: compressLoop_step)
    moreover have "bestBlob ?s1 \<noteq> None"
      by (simp add: adjust_def keepBest_best split: option.splits)
    ultimately show ?thesis
      using "1.IH" [OF step] by blast
  qed
qed



section \<open>Properties of detectFace\<close>

text \<open>
  Claim C7. \<open>detectFace\<close> always resolves, and it resolves with the no-face result
  (\<open>faceDetected = False\<close>, \<open>guidance = no_face\<close>) whenever detection fails: when the
  plugin has no model and \<open>initialize\<close> reports failure; when the plugin still has no
  model at the time of detection; when the image cannot be loaded; when the model's
  \<^verbatim>\<open>estimateFaces\<close> throws; in general, whenever the body of the \<^verbatim>\<open>try\<close> block throws.
  Here \<open>this'\<close> is the plugin after the initialization step.
\<close>

theorem detectFace_safe_default:
  assumes "this' = (if model this = None then snd (initialize env this) else this)"
  shows "(model this = None \<and> \<not> fst (initialize env this)
            \<longrightarrow> fst (detectFace env this options) = Resolved noFaceResult)
       \<and> (model this' = None
            \<longrightarrow> fst (detectFace env this options) = Resolved noFaceResult)
       \<and> (\<forall>e. loadImage env (imageData options) = Inl e
            \<longrightarrow> fst (detectFace env this options) = Resolved noFaceResult)
       \<and> (\<forall>estimateFaces img e.
              model this' = Some estimateFaces
              \<and> loadImage env (imageData options) = Inr img
              \<and> estimateFaces img = Inl e
            \<longrightarrow> fst (detectFace env this options) = Resolved noFaceResult)
       \<and> (\<forall>e. detectBody env this' options = Inl e
            \<longrightarrow> fst (detectFace env this options) = Resolved noFaceResult)
       \<and> snd (detectFace env this options) = this'"
proof -
  have guarded: "detectGuarded env p options = Resolved noFaceResult"
    if "detectBody env p options = Inl e" for p e
    using that by (simp add: detectGuarded_def)
  have no_model: "\<exists>e. detectBody env p options = Inl e" if "model p = None" for p
    using that by (simp add: detectBody_def split: sum.splits)
  have no_image: "detectBody env p options = Inl e"
    if "loadImage env (imageData options) = Inl e" for p e
    using that by (simp add: detectBody_def)
  have throws: "detectBody env p options = Inl e"
    if "model p = Some estimateFaces" and "loadImage env (imageData options) = Inr img"
      and "estimateFaces img = Inl e" for p estimateFaces img e
    using that by (simp add: detectBody_def)
  have result: "fst (detectFace env this options) =
      (if model this = None \<and> \<not> fst (initialize env this) then Resolved noFaceResult
       else detectGuarded env this' options)"
    and state: "snd (detectFace env this options) = this'"
    using assms by (simp_all add: detectFace_def split: prod.splits)
  have safe: "fst (detectFace env this options) = Resolved noFaceResult"
    if "detectBody env this' options = Inl e" for e
    using guarded [OF that] by (simp add: result)
  show ?thesis
  proof (intro conjI allI impI)
    assume "model this = None \<and> \<not> fst (initialize env this)"
    then show "fst (detectFace env this options) = Resolved noFaceResult"
      by (simp add: result)
  next
    assume "model this' = None"
    from no_model [OF this] obtain e where "detectBody env this' options = Inl e" ..
    then show "fst (detectFace env this options) = Resolved noFaceResult"
      by (rule safe)
  next
    fix e
    assume "loadImage env (imageData options) = Inl e"
    then have "detectBody env this' options = Inl e" by (rule no_image)
    then show "fst (detectFace env this options) = Resolved noFaceResult"
      by (rule safe)
  next
    fix estimateFaces img e
    assume "model this' = Some estimateFaces
              \<and> loadImage env (imageData options) = Inr img
              \<and> estimateFaces img = Inl e"
    then have "detectBody env this' options = Inl e"
      by (auto intro: throws)
    then show "fst (detectFace env this options) = Resolved noFaceResult"
      by (rule safe)
  next
    fix e
    assume "detectBody env this' options = Inl e"
    then show "fst (detectFace env this options) = Resolved noFaceResult"
      by (rule safe)
  next
    show "snd (detectFace env this options) = this'" by (rule state)
  qed
qed

text \<open>
  Offline, the scripts cannot be loaded and initialization fails; with a model whose
  \<^verbatim>\<open>estimateFaces\<close> throws, detection fails. Both calls resolve with the no-face result.
\<close>

theorem detectFace_safe_default_witness:
  "model freshPlugin = None
   \<and> \<not> fst (initialize offlineBrowser freshPlugin)
   \<and> fst (detectFace offlineBrowser freshPlugin (sampleOptions None)) = Resolved noFaceResult
   \<and> detectBody (sampleBrowser steppedEncoder) (freshPlugin\<lparr>model := Some throwingModel\<rparr>)
        (sampleOptions None) = Inl ModelError
   \<and> fst (detectFace (sampleBrowser steppedEncoder) (freshPlugin\<lparr>model := Some throwingModel\<rparr>)
        (sampleOptions None)) = Resolved noFaceResult"
  (is "?fresh \<and> ?failed \<and> ?offline \<and> ?thrown \<and> ?caught")
proof -
  have fresh: ?fresh
    by (simp add: freshPlugin_def)
  have failed: ?failed
    by (simp add: initialize_def loadScripts_def offlineBrowser_def freshPlugin_def)
  have thrown: ?thrown
    by (simp add: detectBody_def sampleBrowser_def freshPlugin_def throwingModel_def)
  have loaded: "model (freshPlugin\<lparr>model := Some throwingModel\<rparr>) \<noteq> None"
    by simp
  from fresh failed
    detectFace_safe_default
      [OF refl, where env = offlineBrowser and this = freshPlugin
         and options = "sampleOptions None"]
  have offline: ?offline by simp
  from thrown loaded
    detectFace_safe_default
      [OF refl, where env = "sampleBrowser steppedEncoder"
         and this = "freshPlugin\<lparr>model := Some throwingModel\<rparr>"
         and options = "sampleOptions None"]
  have caught: ?caught by simp
  from fresh failed offline thrown caught show ?thesis
    by (intro conjI)
qed

text \<open>
  Claim C10. Two calls of \<open>detectFace\<close> on the same plugin, in the same browser, with the
  same image data and oval bounds resolve with the same result and leave the plugin in
  the same state, whatever the \<open>sensitivity\<close> of each call.
\<close>

theorem detectFace_ignores_sensitivity:
  assumes "imageData options1 = imageData options2"
    and "ovalBounds options1 = ovalBounds options2"
  shows "detectFace env this options1 = detectFace env this options2"
proof -
  have body: "detectBody env p options1 = detectBody env p options2" for p
    unfolding detectBody_def assms by (rule refl)
  have guarded: "detectGuarded env p options1 = detectGuarded env p options2" for p
    unfolding detectGuarded_def body by (rule refl)
  show ?thesis
    unfolding detectFace_def guarded by (rule refl)
qed

text \<open>
  A frame with one face, centred and of the right size, detected with sensitivity 0 and
  with sensitivity 1: both calls load the model and resolve with \<open>hold_still\<close>.
\<close>

theorem detectFace_ignores_sensitivity_witness:
  "imageData (sampleOptions (Some 0)) = imageData (sampleOptions (Some 1))
   \<and> ovalBounds (sampleOptions (Some 0)) = ovalBounds (sampleOptions (Some 1))
   \<and> sensitivity (sampleOptions (Some 0)) \<noteq> sensitivity (sampleOptions (Some 1))
   \<and> detectFace (sampleBrowser steppedEncoder) freshPlugin (sampleOptions (Some 0))
      = detectFace (sampleBrowser steppedEncoder) freshPlugin (sampleOptions (Some 1))
   \<and> detectFace (sampleBrowser steppedEncoder) freshPlugin (sampleOptions (Some 0))
      = (Resolved
           \<lparr>faceDetected = True,
            bounds = Some \<lparr>face_x = 0.25, face_y = 0.33, face_width = 0.5, face_height = 0.5\<rparr>,
            guidance = hold_still,
            confidence = Some 0.99\<rparr>,
         \<lparr>model = Some oneFaceModel, isInitializing = False, scriptsLoaded = True\<rparr>)"
  (is "?image \<and> ?oval \<and> ?differ \<and> ?same \<and> ?resolved")
proof -
  have image: ?image and oval: ?oval and differ: ?differ
    by (simp_all add: sampleOptions_def)
  from detectFace_ignores_sensitivity [OF image oval] have same: ?same .
  have resolved: ?resolved
    by (simp add: detectFace_def detectGuarded_def detectBody_def initialize_def loadScripts_def
        sampleBrowser_def freshPlugin_def sampleOptions_def oneFaceModel_def
        normalizedBounds_def predictionConfidence_def guidance_eval)
  from image oval differ same resolved show ?thesis
    by (intro conjI)
qed

end
